theory Spec2Isabelle
  imports Main "HOL-Library.Word" "HOL-Library.Multiset"
begin

section \<open>Data model of KMeansMPI.h\<close>

text \<open>
  The class template \<open>KMeansMPI<k, d>\<close> is embedded with its template parameters \<open>k\<close>
  (clusters) and \<open>d\<close> (dimensions) as explicit arguments. An \<open>unsigned char\<close> is an
  8-bit word, an \<open>Element\<close> (\<open>array<unsigned char, d>\<close>) a list of \<open>d\<close> bytes. Counts and
  indices (\<open>int\<close> in the source, never negative there) are natural numbers; they are taken
  to stay below \<open>2^31\<close>, so that \<open>int\<close> overflow is not modelled.
\<close>

type_synonym byte = "8 word"
type_synonym Element = "byte list"

record Cluster =
  elements :: "nat list"
  centroid :: Element

text \<open>\<open>operator==\<close> on clusters compares the centroids only; on \<open>Clusters\<close>
  (\<open>array<Cluster, k>\<close>) it compares cluster by cluster.\<close>

definition clusters_eq :: "Cluster list \<Rightarrow> Cluster list \<Rightarrow> bool" where
  "clusters_eq left right \<longleftrightarrow> map centroid left = map centroid right"

text \<open>The protected members of one process (one MPI rank). The distances are \<open>double\<close>s in
  the source; the metric is a pure virtual function, so the type of distances is a
  parameter, any linear order (a metric that never yields NaN).\<close>

record 'r Proc =
  partition' :: "Element list"
  colorIds :: "nat list"
  maxNum :: nat
  clusters :: "Cluster list"
  dist :: "'r list list"

text \<open>
  What the source leaves undefined is an error value of the model:
  \<^item> \<open>UndefinedConversion\<close>: \<open>int size = sum / n\<close> with \<open>n = 0\<close>; the quotient of the
    doubles is NaN or infinite, and its conversion to \<open>int\<close> is undefined;
  \<^item> \<open>OutOfBounds\<close>: a read past the end of an array or buffer;
  \<^item> \<open>CollectiveMismatch\<close>: some ranks leave the generation loop while others go on
    to the next collective call.
\<close>

datatype error = UndefinedConversion | OutOfBounds | CollectiveMismatch

fun mapE :: "('a \<Rightarrow> error + 'b) \<Rightarrow> 'a list \<Rightarrow> error + 'b list" where
  "mapE f [] = Inr []"
| "mapE f (x # xs) =
     (case f x of
        Inl e \<Rightarrow> Inl e
      | Inr y \<Rightarrow> (case mapE f xs of Inl e \<Rightarrow> Inl e | Inr ys \<Rightarrow> Inr (y # ys)))"

text \<open>A counted \<open>for\<close> loop whose body may fail: the body is run for each index in turn,
  threading the state, and stops at the first error.\<close>

fun foldE :: "('a \<Rightarrow> 's \<Rightarrow> error + 's) \<Rightarrow> 'a list \<Rightarrow> 's \<Rightarrow> error + 's" where
  "foldE f [] s = Inr s"
| "foldE f (x # xs) s = (case f x s of Inl e \<Rightarrow> Inl e | Inr s' \<Rightarrow> foldE f xs s')"

definition MAX_NUM_GENERATIONS :: nat where
  "MAX_NUM_GENERATIONS = 300"

section \<open>updateCentroid\<close>

text \<open>
  \<open>double sum = (double)centroid[i] * centroidCount + (double)newElement[i] * newElementCount;
  int size = sum / n; centroid[i] = (unsigned char)(size);\<close>

  The products and their sum are integers below \<open>2^40\<close>, exact in a double. For \<open>n > 0\<close>
  the quotient is at most 255 and, when it is not an integer, at least \<open>1/n \<ge> 2^-31\<close> below
  the next integer, far more than the rounding error of the division; so the truncated
  double quotient is the integer quotient \<open>sum div n\<close>. For \<open>n = 0\<close> the conversion is
  undefined.
\<close>

definition updateCentroid :: "Element \<Rightarrow> nat \<Rightarrow> Element \<Rightarrow> nat \<Rightarrow> error + Element" where
  "updateCentroid cen centroidCount newElement newElementCount =
     (let n = centroidCount + newElementCount in
      mapE (\<lambda>i. let s = unat (cen ! i) * centroidCount + unat (newElement ! i) * newElementCount
                in if n = 0 then Inl UndefinedConversion else Inr (of_nat (s div n)))
           [0..<length cen])"

section \<open>partitionColors\<close>

text \<open>The root's send buffer: for each element its \<open>d\<close> bytes, then its index cast to
  \<open>unsigned char\<close>.\<close>

definition marshalColors :: "nat \<Rightarrow> Element list \<Rightarrow> byte list" where
  "marshalColors d colorList =
     concat (map (\<lambda>i. map (\<lambda>j. colorList ! i ! j) [0..<d] @ [of_nat i]) [0..<length colorList])"

definition displs :: "nat \<Rightarrow> nat \<Rightarrow> nat \<Rightarrow> nat \<Rightarrow> nat" where
  "displs d nColors proccesses z = z * (nColors div proccesses) * (d + 1)"

definition sendcounts :: "nat \<Rightarrow> nat \<Rightarrow> nat \<Rightarrow> nat \<Rightarrow> nat" where
  "sendcounts d nColors proccesses z =
     (if z = proccesses - 1
      then nColors * (d + 1) - (proccesses - 1) * (nColors div proccesses) * (d + 1)
      else (nColors div proccesses) * (d + 1))"

text \<open>The value \<open>maxNum\<close> gets on a rank.\<close>

definition shardSize :: "nat \<Rightarrow> nat \<Rightarrow> nat \<Rightarrow> nat" where
  "shardSize nColors proccesses rank =
     (if rank = proccesses - 1
      then nColors - (nColors div proccesses) * (proccesses - 1)
      else nColors div proccesses)"

text \<open>\<open>MPI_Scatterv\<close> hands rank \<open>z\<close> the \<open>sendcounts[z]\<close> bytes of the root's buffer that
  start at \<open>displs[z]\<close>; the rank then reads \<open>maxNum\<close> records of \<open>d + 1\<close> bytes.\<close>

definition partitionColors :: "nat \<Rightarrow> Element list \<Rightarrow> nat \<Rightarrow> nat \<Rightarrow> 'r Proc \<Rightarrow> 'r Proc" where
  "partitionColors d colorList proccesses rank p =
     (let nColors = length colorList;
          sendbuf = marshalColors d colorList;
          mx = shardSize nColors proccesses rank;
          recvbuf = take (sendcounts d nColors proccesses rank)
                         (drop (displs d nColors proccesses rank) sendbuf)
      in p\<lparr>partition' := map (\<lambda>i. map (\<lambda>j. recvbuf ! (i * (d + 1) + j)) [0..<d]) [0..<mx],
            colorIds := map (\<lambda>i. unat (recvbuf ! (i * (d + 1) + d))) [0..<mx],
            maxNum := mx\<rparr>)"

text \<open>A freshly constructed object: \<open>k\<close> clusters without elements. The centroids are not
  initialised in the source; they are written (by \<open>selectClusters\<close> on the root, by the
  first broadcast elsewhere) before they are read.\<close>

definition initProc :: "nat \<Rightarrow> nat \<Rightarrow> 'r Proc" where
  "initProc d k =
     \<lparr>partition' = [], colorIds = [], maxNum = 0,
      clusters = replicate k \<lparr>elements = [], centroid = replicate d 0\<rparr>, dist = []\<rparr>"

definition partitionAll :: "nat \<Rightarrow> nat \<Rightarrow> Element list \<Rightarrow> nat \<Rightarrow> 'r Proc list" where
  "partitionAll d k colorList proccesses =
     map (\<lambda>rank. partitionColors d colorList proccesses rank (initProc d k)) [0..<proccesses]"

section \<open>selectClusters and distributeCentroids\<close>

text \<open>\<open>std::sample\<close> draws the indices; the drawn list \<open>selectedColors\<close> is an argument of
  the model. It has fewer than \<open>k\<close> entries when \<open>k > n\<close>, and the source then reads past
  its end.\<close>

definition selectClusters :: "Element list \<Rightarrow> nat list \<Rightarrow> nat \<Rightarrow> error + Cluster list" where
  "selectClusters colorList selectedColors k =
     mapE (\<lambda>i. if i < length selectedColors \<and> selectedColors ! i < length colorList
               then Inr \<lparr>elements = [], centroid = colorList ! (selectedColors ! i)\<rparr>
               else Inl OutOfBounds)
          [0..<k]"

text \<open>Rank 0 is \<open>ROOT\<close>. The root packs its \<open>k * d\<close> centroid bytes; every other rank
  overwrites its centroids from the buffer.\<close>

definition distributeCentroids :: "nat \<Rightarrow> nat \<Rightarrow> 'r Proc list \<Rightarrow> 'r Proc list" where
  "distributeCentroids d k procs =
     (let buffer = concat (map (\<lambda>i. map (\<lambda>j. centroid (clusters (procs ! 0) ! i) ! j) [0..<d])
                               [0..<k])
      in map (\<lambda>rank.
                if rank = 0 then procs ! rank
                else (procs ! rank)\<lparr>clusters :=
                       map (\<lambda>i. (clusters (procs ! rank) ! i)
                                  \<lparr>centroid := map (\<lambda>j. buffer ! (i * d + j)) [0..<d]\<rparr>)
                           [0..<k]\<rparr>)
             [0..<length procs])"

section \<open>updateDistances and updateClusters\<close>

definition updateDistances :: "(Element \<Rightarrow> Element \<Rightarrow> 'r) \<Rightarrow> nat \<Rightarrow> 'r Proc \<Rightarrow> 'r Proc" where
  "updateDistances distance k p =
     p\<lparr>dist := map (\<lambda>i. map (\<lambda>j. distance (centroid (clusters p ! j)) (partition' p ! i)) [0..<k])
                    [0..<maxNum p]\<rparr>"

text \<open>\<open>int min = 0; for (int j = 1; j < k; j++) if (dist[i][j] < dist[i][min]) min = j;\<close>\<close>

definition closest :: "nat \<Rightarrow> ('r::linorder) list \<Rightarrow> nat" where
  "closest k row = fold (\<lambda>j mn. if row ! j < row ! mn then j else mn) [1..<k] 0"

definition assignElement ::
  "nat \<Rightarrow> ('r::linorder) Proc \<Rightarrow> nat \<Rightarrow> Cluster list \<Rightarrow> error + Cluster list" where
  "assignElement k p i cs =
     (let mn = closest k (dist p ! i); c = cs ! mn
      in case updateCentroid (centroid c) (length (elements c)) (partition' p ! i) 1 of
           Inl e \<Rightarrow> Inl e
         | Inr c' \<Rightarrow> Inr (cs[mn := \<lparr>elements = elements c @ [i], centroid = c'\<rparr>]))"

definition updateClusters :: "nat \<Rightarrow> nat \<Rightarrow> ('r::linorder) Proc \<Rightarrow> error + 'r Proc" where
  "updateClusters d k p =
     (case foldE (assignElement k p) [0..<maxNum p]
                 (replicate k \<lparr>elements = [], centroid = replicate d 0\<rparr>) of
        Inl e \<Rightarrow> Inl e
      | Inr cs \<Rightarrow> Inr (p\<lparr>clusters := cs\<rparr>))"

section \<open>combineClusters\<close>

definition serializeCentroids :: "nat \<Rightarrow> nat \<Rightarrow> Cluster list \<Rightarrow> byte list" where
  "serializeCentroids d k cs =
     concat (map (\<lambda>i. map (\<lambda>j. centroid (cs ! i) ! j) [0..<d] @ [of_nat (length (elements (cs ! i)))])
                 [0..<k])"

text \<open>The body of the root's double loop; the state is the root's clusters, the running
  \<open>clusterSizes\<close> and the read position \<open>index\<close>.\<close>

definition mergeReport ::
  "nat \<Rightarrow> byte list \<Rightarrow> nat \<Rightarrow> Cluster list \<times> nat list \<times> nat \<Rightarrow> error + Cluster list \<times> nat list \<times> nat" where
  "mergeReport d recvbuf i st =
     (case st of (cs, clusterSizes, index) \<Rightarrow>
        (let cen = map (\<lambda>j. recvbuf ! (index + j)) [0..<d];
             size = unat (recvbuf ! (index + d))
         in case updateCentroid (centroid (cs ! i)) (clusterSizes ! i) cen size of
              Inl e \<Rightarrow> Inl e
            | Inr c' \<Rightarrow> Inr (cs[i := (cs ! i)\<lparr>centroid := c'\<rparr>],
                             clusterSizes[i := clusterSizes ! i + size],
                             index + d + 1)))"

definition mergeAll ::
  "nat \<Rightarrow> nat \<Rightarrow> nat \<Rightarrow> byte list \<Rightarrow> Cluster list \<Rightarrow> error + Cluster list \<times> nat list \<times> nat" where
  "mergeAll d k proccesses recvbuf cs =
     foldE (\<lambda>z. foldE (mergeReport d recvbuf) [0..<k]) [0..<proccesses]
           (cs, map (\<lambda>i. length (elements (cs ! i))) [0..<k], 0)"

text \<open>\<open>MPI_Gather\<close> concatenates the ranks' buffers, of \<open>k * (d + 1)\<close> bytes each, in rank
  order; only the root merges.\<close>

definition combineClusters :: "nat \<Rightarrow> nat \<Rightarrow> 'r Proc list \<Rightarrow> error + 'r Proc list" where
  "combineClusters d k procs =
     (let recvbuf = concat (map (\<lambda>p. serializeCentroids d k (clusters p)) procs)
      in case mergeAll d k (length procs) recvbuf (clusters (procs ! 0)) of
           Inl e \<Rightarrow> Inl e
         | Inr (cs, clusterSizes, index) \<Rightarrow> Inr (procs[0 := (procs ! 0)\<lparr>clusters := cs\<rparr>]))"

section \<open>collectClusterAssignments\<close>

definition serializeAssignments :: "nat \<Rightarrow> 'r Proc \<Rightarrow> byte list" where
  "serializeAssignments k p =
     concat (map (\<lambda>i. of_nat (length (elements (clusters p ! i)))
                      # map (\<lambda>index. of_nat (colorIds p ! index)) (elements (clusters p ! i)))
                 [0..<k])"

text \<open>\<open>for (int e = 0; e < size; e++) clusters[i].elements.push_back(recvbuf[bufferIndex++]);\<close>\<close>

fun readElements :: "nat \<Rightarrow> byte list \<Rightarrow> nat \<Rightarrow> nat list \<Rightarrow> error + nat list \<times> nat" where
  "readElements 0 recvbuf bufferIndex acc = Inr (acc, bufferIndex)"
| "readElements (Suc e) recvbuf bufferIndex acc =
     (if bufferIndex < length recvbuf
      then readElements e recvbuf (bufferIndex + 1) (acc @ [unat (recvbuf ! bufferIndex)])
      else Inl OutOfBounds)"

definition readCluster ::
  "byte list \<Rightarrow> nat \<Rightarrow> Cluster list \<times> nat \<Rightarrow> error + Cluster list \<times> nat" where
  "readCluster recvbuf i st =
     (case st of (cs, bufferIndex) \<Rightarrow>
        if bufferIndex < length recvbuf
        then (case readElements (unat (recvbuf ! bufferIndex)) recvbuf (bufferIndex + 1)
                                (elements (cs ! i)) of
                Inl e \<Rightarrow> Inl e
              | Inr (els, bufferIndex') \<Rightarrow> Inr (cs[i := (cs ! i)\<lparr>elements := els\<rparr>], bufferIndex'))
        else Inl OutOfBounds)"

definition readAll ::
  "nat \<Rightarrow> nat \<Rightarrow> byte list \<Rightarrow> Cluster list \<Rightarrow> error + Cluster list \<times> nat" where
  "readAll k proccesses recvbuf cs =
     foldE (\<lambda>z. foldE (readCluster recvbuf) [0..<k]) [0..<proccesses]
           (map (\<lambda>c. c\<lparr>elements := []\<rparr>) cs, 0)"

text \<open>\<open>MPI_Gatherv\<close> places the buffer of rank \<open>z\<close> at \<open>displs[z] = z * (n / P + k)\<close>. Every
  rank sends \<open>maxNum + k\<close> bytes (lemma \<open>length_serializeAssignments\<close> below), so the
  received buffer is the concatenation of the ranks' buffers in rank order.\<close>

definition collectClusterAssignments :: "nat \<Rightarrow> 'r Proc list \<Rightarrow> error + 'r Proc list" where
  "collectClusterAssignments k procs =
     (let recvbuf = concat (map (serializeAssignments k) procs)
      in case readAll k (length procs) recvbuf (clusters (procs ! 0)) of
           Inl e \<Rightarrow> Inl e
         | Inr (cs, bufferIndex) \<Rightarrow> Inr (procs[0 := (procs ! 0)\<lparr>clusters := cs\<rparr>]))"

section \<open>fitWork\<close>

text \<open>One generation on all ranks in lock step. The second component holds each rank's
  local variable \<open>prev\<close>.\<close>

definition fitRound ::
  "(Element \<Rightarrow> Element \<Rightarrow> 'r::linorder) \<Rightarrow> nat \<Rightarrow> nat \<Rightarrow> 'r Proc list \<times> Cluster list list
     \<Rightarrow> error + 'r Proc list \<times> Cluster list list" where
  "fitRound distance d k st =
     (case st of (procs, prevs) \<Rightarrow>
        (let procs1 = map (updateDistances distance k) procs;
             prevs' = map clusters procs1
         in case mapE (updateClusters d k) procs1 of
              Inl e \<Rightarrow> Inl e
            | Inr procs2 \<Rightarrow>
                (case combineClusters d k procs2 of
                   Inl e \<Rightarrow> Inl e
                 | Inr procs3 \<Rightarrow> Inr (distributeCentroids d k procs3, prevs'))))"

text \<open>Each rank tests \<open>prev == clusters\<close> on its own state.\<close>

definition checks :: "'r Proc list \<times> Cluster list list \<Rightarrow> bool list" where
  "checks st = (case st of (procs, prevs) \<Rightarrow>
     map (\<lambda>rank. clusters_eq (prevs ! rank) (clusters (procs ! rank))) [0..<length procs])"

text \<open>The generation loop (\<open>maxGenerations\<close> is the constant \<open>MAX_NUM_GENERATIONS\<close>). It
  returns the number of generations that were run and the final state.\<close>

function fitLoop ::
  "(Element \<Rightarrow> Element \<Rightarrow> 'r::linorder) \<Rightarrow> nat \<Rightarrow> nat \<Rightarrow> nat \<Rightarrow> nat
     \<Rightarrow> 'r Proc list \<times> Cluster list list \<Rightarrow> error + nat \<times> 'r Proc list \<times> Cluster list list" where
  "fitLoop distance d k maxGenerations generation st =
     (if generation < maxGenerations
      then (if list_all id (checks st) then Inr (generation, st)
            else if list_ex id (checks st) then Inl CollectiveMismatch
            else (case fitRound distance d k st of
                    Inl e \<Rightarrow> Inl e
                  | Inr st' \<Rightarrow> fitLoop distance d k maxGenerations (generation + 1) st'))
      else Inr (generation, st))"
  by pat_completeness auto
termination
  by (relation "measure (\<lambda>(distance, d, k, maxGenerations, generation, st). maxGenerations - generation)")
     auto



text \<open>\<open>++prev[0].centroid[0];\<close>\<close>

definition perturb :: "Cluster list \<Rightarrow> Cluster list" where
  "perturb prev = prev[0 := (prev ! 0)\<lparr>centroid := (centroid (prev ! 0))[0 := centroid (prev ! 0) ! 0 + 1]\<rparr>]"

definition startState ::
  "nat \<Rightarrow> nat \<Rightarrow> Element list \<Rightarrow> nat list \<Rightarrow> nat \<Rightarrow> error + 'r Proc list \<times> Cluster list list" where
  "startState d k colorList selectedColors proccesses =
     (let procs0 = partitionAll d k colorList proccesses
      in case selectClusters colorList selectedColors k of
           Inl e \<Rightarrow> Inl e
         | Inr cs \<Rightarrow>
             (let procs1 = distributeCentroids d k (procs0[0 := (procs0 ! 0)\<lparr>clusters := cs\<rparr>])
              in Inr (procs1, map (\<lambda>p. perturb (clusters p)) procs1)))"

text \<open>\<open>fitWork\<close> on all ranks: the number of generations run and the ranks' final
  states.\<close>

definition fitWork ::
  "(Element \<Rightarrow> Element \<Rightarrow> 'r::linorder) \<Rightarrow> nat \<Rightarrow> nat \<Rightarrow> Element list \<Rightarrow> nat list \<Rightarrow> nat
     \<Rightarrow> error + nat \<times> 'r Proc list" where
  "fitWork distance d k colorList selectedColors proccesses =
     (case startState d k colorList selectedColors proccesses of
        Inl e \<Rightarrow> Inl e
      | Inr st \<Rightarrow>
          (case fitLoop distance d k MAX_NUM_GENERATIONS 0 st of
             Inl e \<Rightarrow> Inl e
           | Inr (generations, procs, prevs) \<Rightarrow>
               (case collectClusterAssignments k procs of
                  Inl e \<Rightarrow> Inl e
                | Inr procs' \<Rightarrow> Inr (generations, procs'))))"

text \<open>\<open>fit\<close> followed by \<open>getClusters\<close> on the root.\<close>

definition fit ::
  "(Element \<Rightarrow> Element \<Rightarrow> 'r::linorder) \<Rightarrow> nat \<Rightarrow> nat \<Rightarrow> Element list \<Rightarrow> nat list \<Rightarrow> nat
     \<Rightarrow> error + Cluster list" where
  "fit distance d k colorList selectedColors proccesses =
     (case fitWork distance d k colorList selectedColors proccesses of
        Inl e \<Rightarrow> Inl e
      | Inr (generations, procs) \<Rightarrow> Inr (clusters (procs ! 0)))"

section \<open>MNISTPixel::calculateEuclideanDistance\<close>

text \<open>
  The metric of the subclass \<open>MNISTKMeansMPI\<close>: the source adds the squared differences of
  the bytes (exactly, the sums stay far below \<open>2^53\<close>) and returns the square root of the
  sum. The square root is strictly increasing, and the roots of two different sums below
  \<open>2^53\<close> differ by far more than a rounding error, so the doubles compare as the sums
  do; the model returns the sum.
\<close>

definition euclideanSquared :: "Element \<Rightarrow> Element \<Rightarrow> nat" where
  "euclideanSquared x y =
     sum_list (map (\<lambda>i. (nat \<bar>int (unat (x ! i)) - int (unat (y ! i))\<bar>) ^ 2) [0..<length x])"

section \<open>Auxiliary notions and fixtures\<close>

text \<open>The local indices below \<open>m\<close> whose nearest centroid is \<open>j\<close>.\<close>

definition assigned :: "nat \<Rightarrow> ('r::linorder) Proc \<Rightarrow> nat \<Rightarrow> nat \<Rightarrow> nat list" where
  "assigned k p m j = filter (\<lambda>i. closest k (dist p ! i) = j) [0..<m]"

definition assignedTo :: "nat \<Rightarrow> ('r::linorder) Proc \<Rightarrow> 'r Proc \<Rightarrow> bool" where
  "assignedTo k p p' \<longleftrightarrow>
     length (clusters p') = k \<and> maxNum p' = maxNum p \<and> colorIds p' = colorIds p
     \<and> (\<forall>j<k. elements (clusters p' ! j) = assigned k p (maxNum p) j)"

text \<open>A worker with three clusters whose first element is at the same distance from all
  three centroids.\<close>

definition tieProc :: "nat Proc" where
  "tieProc = \<lparr>partition' = [[15], [12], [30]], colorIds = [0, 1, 2], maxNum = 3,
     clusters = [\<lparr>elements = [], centroid = [10]\<rparr>, \<lparr>elements = [], centroid = [20]\<rparr>,
                 \<lparr>elements = [], centroid = [10]\<rparr>],
     dist = []\<rparr>"

definition sevenColors :: "Element list" where
  "sevenColors = [[0], [1], [2], [3], [100], [101], [102]]"

text \<open>
  The merge order in the words of the specification: the reports of all ranks, by
  increasing rank and, within a rank, by increasing cluster index; the report of cluster
  \<open>i\<close> of rank \<open>z\<close> lies at offset \<open>(z * k + i) * (d + 1)\<close> of the gathered buffer.
\<close>

definition reportOrder :: "nat \<Rightarrow> nat \<Rightarrow> (nat \<times> nat) list" where
  "reportOrder k proccesses = concat (map (\<lambda>z. map (\<lambda>i. (z, i)) [0..<k]) [0..<proccesses])"

definition mergeAt ::
  "nat \<Rightarrow> nat \<Rightarrow> byte list \<Rightarrow> nat \<times> nat \<Rightarrow> Cluster list \<times> nat list \<Rightarrow> error + Cluster list \<times> nat list" where
  "mergeAt d k recvbuf zi st =
     (case zi of (z, i) \<Rightarrow> case st of (cs, clusterSizes) \<Rightarrow>
        (let offset = (z * k + i) * (d + 1);
             cen = map (\<lambda>j. recvbuf ! (offset + j)) [0..<d];
             size = unat (recvbuf ! (offset + d))
         in case updateCentroid (centroid (cs ! i)) (clusterSizes ! i) cen size of
              Inl e \<Rightarrow> Inl e
            | Inr c' \<Rightarrow> Inr (cs[i := (cs ! i)\<lparr>centroid := c'\<rparr>],
                             clusterSizes[i := clusterSizes ! i + size])))"

definition mergeOrdered ::
  "nat \<Rightarrow> nat \<Rightarrow> nat \<Rightarrow> byte list \<Rightarrow> Cluster list \<Rightarrow> error + Cluster list \<times> nat list" where
  "mergeOrdered d k proccesses recvbuf cs =
     foldE (mergeAt d k recvbuf) (reportOrder k proccesses)
           (cs, map (\<lambda>i. length (elements (cs ! i))) [0..<k])"

text \<open>A worker whose only cluster has 300 members.\<close>

definition bigProc :: "nat Proc" where
  "bigProc = \<lparr>partition' = replicate 300 [7], colorIds = map (\<lambda>i. i mod 256) [0..<300], maxNum = 300,
     clusters = [\<lparr>elements = [0..<300], centroid = [7]\<rparr>], dist = []\<rparr>"









text \<open>What holds of the workers' states from \<open>partitionColors\<close> on: the shard sizes,
  the global index (as the byte that was sent) of every local element, and \<open>k\<close>
  clusters.\<close>

definition shardInv :: "nat \<Rightarrow> nat \<Rightarrow> nat \<Rightarrow> 'r Proc list \<Rightarrow> bool" where
  "shardInv k n P procs \<longleftrightarrow>
     length procs = P
     \<and> (\<forall>z<P. maxNum (procs ! z) = shardSize n P z
              \<and> colorIds (procs ! z) = map (\<lambda>i. (z * (n div P) + i) mod 256) [0..<shardSize n P z]
              \<and> length (clusters (procs ! z)) = k)"

text \<open>What holds after every assignment phase: the membership lists of a worker hold
  each of its local indices once.\<close>

definition assignedInv :: "'r Proc list \<Rightarrow> bool" where
  "assignedInv procs \<longleftrightarrow>
     (\<forall>z<length procs. mset (concat (map elements (clusters (procs ! z)))) = mset [0..<maxNum (procs ! z)])"

text \<open>What the root does with the buffer of one cluster of one rank, when the bytes
  carry the count and the indices unchanged.\<close>

definition appendIds :: "'r Proc \<Rightarrow> nat \<Rightarrow> Cluster list \<Rightarrow> Cluster list" where
  "appendIds p i cs =
     cs[i := (cs ! i)\<lparr>elements := elements (cs ! i) @ map (\<lambda>index. colorIds p ! index) (elements (clusters p ! i))\<rparr>]"

text \<open>Two states of a worker with the same shard bookkeeping and the same membership
  lists (the centroids and the distance table may differ).\<close>

definition sameMembers :: "'r Proc \<Rightarrow> 'r Proc \<Rightarrow> bool" where
  "sameMembers p p' \<longleftrightarrow>
     maxNum p' = maxNum p \<and> colorIds p' = colorIds p
     \<and> map elements (clusters p') = map elements (clusters p)"

text \<open>The buffer a worker sends for one cluster in \<open>collectClusterAssignments\<close>, and the
  condition under which its bytes carry the count and the indices unchanged.\<close>

definition chunkOf :: "'r Proc \<Rightarrow> nat \<Rightarrow> byte list" where
  "chunkOf p i = of_nat (length (elements (clusters p ! i)))
                   # map (\<lambda>index. of_nat (colorIds p ! index)) (elements (clusters p ! i))"

definition fitsBytes :: "nat \<Rightarrow> 'r Proc \<Rightarrow> bool" where
  "fitsBytes k p \<longleftrightarrow>
     (\<forall>i<k. length (elements (clusters p ! i)) \<le> 255
            \<and> (\<forall>index\<in>set (elements (clusters p ! i)). colorIds p ! index < 256))"

definition eightColors :: "Element list" where
  "eightColors = [[0], [1], [2], [3], [20], [21], [22], [23]]"

section \<open>Properties of updateCentroid\<close>

lemma mapE_Inr:
  "(\<And>x. x \<in> set xs \<Longrightarrow> f x = Inr (g x)) \<Longrightarrow> mapE f xs = Inr (map g xs)"
  by (induction xs) auto

lemma mapE_length: "mapE f xs = Inr ys \<Longrightarrow> length ys = length xs"
  by (induction xs arbitrary: ys) (auto split: sum.splits)

lemma mapE_nth: "mapE f xs = Inr ys \<Longrightarrow> i < length xs \<Longrightarrow> f (xs ! i) = Inr (ys ! i)"
proof (induction xs arbitrary: ys i)
  case Nil
  then show ?case by simp
next
  case (Cons x xs)
  then show ?case by (cases i) (auto split: sum.splits)
qed

lemma updateCentroid_Inr:
  assumes "0 < cc + nc"
  shows "updateCentroid cen cc x nc =
           Inr (map (\<lambda>i. of_nat ((unat (cen ! i) * cc + unat (x ! i) * nc) div (cc + nc))) [0..<length cen])"
  using assms unfolding updateCentroid_def Let_def by (intro mapE_Inr) simp





section \<open>Properties of partitionColors\<close>

lemma length_concat_uniform:
  "\<forall>xs\<in>set xss. length xs = c \<Longrightarrow> length (concat xss) = length xss * c"
  by (induction xss) auto

lemma nth_concat_uniform:
  "\<forall>xs\<in>set xss. length xs = c \<Longrightarrow> i < length xss \<Longrightarrow> j < c \<Longrightarrow>
     concat xss ! (i * c + j) = xss ! i ! j"
proof (induction xss arbitrary: i)
  case Nil
  then show ?case by simp
next
  case (Cons xs xss)
  show ?case
  proof (cases i)
    case 0
    with Cons.prems show ?thesis by (simp add: nth_append)
  next
    case (Suc i')
    with Cons.prems have "concat xss ! (i' * c + j) = xss ! i' ! j"
      by (intro Cons.IH) auto
    moreover have "Suc i' * c + j = length xs + (i' * c + j)"
      using Cons.prems by simp
    ultimately show ?thesis using Suc by (simp only: concat.simps nth_append_length_plus nth_Cons_Suc)
  qed
qed

lemma length_marshalColors: "length (marshalColors d colorList) = length colorList * (d + 1)"
  unfolding marshalColors_def by (subst length_concat_uniform [where c = "d + 1"]) auto

lemma marshalColors_nth:
  assumes "i < length colorList" and "j \<le> d"
  shows "marshalColors d colorList ! (i * (d + 1) + j)
           = (if j < d then colorList ! i ! j else of_nat i)"
proof -
  let ?recs = "map (\<lambda>i. map (\<lambda>j. colorList ! i ! j) [0..<d] @ [of_nat i]) [0..<length colorList]"
  have "concat ?recs ! (i * (d + 1) + j) = ?recs ! i ! j"
    using assms by (intro nth_concat_uniform) auto
  also have "\<dots> = (if j < d then colorList ! i ! j else of_nat i)"
    using assms by (auto simp: nth_append)
  finally show ?thesis by (simp add: marshalColors_def)
qed

lemma shard_index_bound:
  assumes "0 < P" and "rank < P" and "i < shardSize n P rank"
  shows "rank * (n div P) + i < n"
proof (cases "rank = P - 1")
  case True
  with assms show ?thesis by (simp add: shardSize_def mult.commute)
next
  case False
  with assms have i: "i < n div P" and r: "Suc rank \<le> P" by (auto simp: shardSize_def)
  have "rank * (n div P) + i < Suc rank * (n div P)" using i by simp
  also have "\<dots> \<le> P * (n div P)" using r by (rule mult_le_mono1)
  also have "\<dots> \<le> n" by simp
  finally show ?thesis .
qed

lemma sendcounts_shardSize:
  "sendcounts d n P rank = shardSize n P rank * (d + 1)"
proof (cases "rank = P - 1")
  case True
  have "sendcounts d n P rank = n * (d + 1) - (P - 1) * (n div P) * (d + 1)"
    using True by (simp only: sendcounts_def refl if_True)
  also have "\<dots> = (n - (P - 1) * (n div P)) * (d + 1)"
    by (rule diff_mult_distrib [symmetric])
  also have "\<dots> = (n - (n div P) * (P - 1)) * (d + 1)"
    by (simp only: mult.commute [of "P - 1" "n div P"])
  also have "\<dots> = shardSize n P rank * (d + 1)"
    using True by (simp only: shardSize_def refl if_True)
  finally show ?thesis .
next
  case False
  then show ?thesis by (simp only: sendcounts_def shardSize_def if_False)
qed

lemma recvbuf_nth:
  assumes "0 < P" and "rank < P" and "i < shardSize (length colorList) P rank" and "j \<le> d"
  shows "take (sendcounts d (length colorList) P rank)
              (drop (displs d (length colorList) P rank) (marshalColors d colorList)) ! (i * (d + 1) + j)
         = (if j < d then colorList ! (rank * (length colorList div P) + i) ! j
            else of_nat (rank * (length colorList div P) + i))"
proof -
  let ?n = "length colorList"
  let ?g = "rank * (?n div P) + i"
  have g: "?g < ?n" using assms by (intro shard_index_bound)
  have "i * (d + 1) + j < Suc i * (d + 1)" using assms by simp
  also have "\<dots> \<le> shardSize ?n P rank * (d + 1)"
    using assms by (intro mult_le_mono1) simp
  finally have m: "i * (d + 1) + j < sendcounts d ?n P rank"
    by (simp only: sendcounts_shardSize)
  have pos: "displs d ?n P rank + (i * (d + 1) + j) = ?g * (d + 1) + j"
    by (simp add: displs_def algebra_simps)
  have "displs d ?n P rank \<le> ?g * (d + 1)" by (simp add: displs_def algebra_simps)
  also have "\<dots> \<le> ?n * (d + 1)" using g by (intro mult_le_mono1) simp
  finally have le: "displs d ?n P rank \<le> length (marshalColors d colorList)"
    by (simp add: length_marshalColors)
  show ?thesis
    using m le g assms by (simp only: nth_take nth_drop pos marshalColors_nth)
qed

lemma partitionColors_maxNum:
  "maxNum (partitionColors d colorList P rank p) = shardSize (length colorList) P rank"
  by (simp add: partitionColors_def Let_def)

lemma partitionColors_partition:
  assumes "0 < P" and "rank < P" and "\<forall>e\<in>set colorList. length e = d"
  shows "partition' (partitionColors d colorList P rank p)
           = take (shardSize (length colorList) P rank) (drop (rank * (length colorList div P)) colorList)"
proof (rule nth_equalityI)
  let ?n = "length colorList"
  have "rank * (?n div P) + shardSize ?n P rank \<le> ?n"
  proof (cases "shardSize ?n P rank")
    case 0
    have "rank * (?n div P) \<le> P * (?n div P)" using assms by (intro mult_le_mono1) simp
    also have "\<dots> \<le> ?n" by simp
    finally show ?thesis using 0 by simp
  next
    case (Suc m)
    then have "rank * (?n div P) + m < ?n" using assms by (intro shard_index_bound) simp_all
    with Suc show ?thesis by simp
  qed
  then show len: "length (partition' (partitionColors d colorList P rank p))
      = length (take (shardSize ?n P rank) (drop (rank * (?n div P)) colorList))"
    by (simp add: partitionColors_def Let_def)
  fix i assume "i < length (partition' (partitionColors d colorList P rank p))"
  then have i: "i < shardSize ?n P rank" by (simp add: partitionColors_def Let_def)
  then have g: "rank * (?n div P) + i < ?n" using assms by (intro shard_index_bound)
  then have ld: "length (colorList ! (rank * (?n div P) + i)) = d" using assms by simp
  have "map (\<lambda>j. take (sendcounts d ?n P rank) (drop (displs d ?n P rank) (marshalColors d colorList))
                    ! (i * (d + 1) + j)) [0..<d]
        = map (\<lambda>j. colorList ! (rank * (?n div P) + i) ! j) [0..<d]"
  proof (rule map_cong [OF refl])
    fix j assume "j \<in> set [0..<d]"
    then have "j < d" by simp
    then show "take (sendcounts d ?n P rank) (drop (displs d ?n P rank) (marshalColors d colorList))
                 ! (i * (d + 1) + j) = colorList ! (rank * (?n div P) + i) ! j"
      using recvbuf_nth [OF assms(1,2) i, of j d] by simp
  qed
  then have "partition' (partitionColors d colorList P rank p) ! i
        = map (\<lambda>j. colorList ! (rank * (?n div P) + i) ! j) [0..<d]"
    using i by (simp add: partitionColors_def Let_def)
  also have "\<dots> = colorList ! (rank * (?n div P) + i)"
    using ld map_nth [of "colorList ! (rank * (?n div P) + i)"] by simp
  finally show "partition' (partitionColors d colorList P rank p) ! i
      = take (shardSize ?n P rank) (drop (rank * (?n div P)) colorList) ! i"
    using i g by simp
qed

lemma partitionColors_colorIds:
  assumes "0 < P" and "rank < P"
  shows "colorIds (partitionColors d colorList P rank p)
           = map (\<lambda>i. (rank * (length colorList div P) + i) mod 256)
                 [0..<shardSize (length colorList) P rank]"
proof -
  let ?n = "length colorList"
  have "map (\<lambda>i. unat (take (sendcounts d ?n P rank) (drop (displs d ?n P rank) (marshalColors d colorList))
                    ! (i * (d + 1) + d))) [0..<shardSize ?n P rank]
        = map (\<lambda>i. (rank * (?n div P) + i) mod 256) [0..<shardSize ?n P rank]"
  proof (rule map_cong [OF refl])
    fix i assume "i \<in> set [0..<shardSize ?n P rank]"
    then have "i < shardSize ?n P rank" by simp
    then show "unat (take (sendcounts d ?n P rank) (drop (displs d ?n P rank) (marshalColors d colorList))
                 ! (i * (d + 1) + d)) = (rank * (?n div P) + i) mod 256"
      using recvbuf_nth [OF assms(1,2), of i colorList d d] by (simp add: unat_of_nat del: of_nat_add of_nat_mult)
  qed
  then show ?thesis by (simp add: partitionColors_def Let_def)
qed


lemma length_partitionAll: "length (partitionAll d k colorList P) = P"
  by (simp add: partitionAll_def)

lemma partitionAll_nth:
  "rank < P \<Longrightarrow> partitionAll d k colorList P ! rank = partitionColors d colorList P rank (initProc d k)"
  by (simp add: partitionAll_def)

lemma concat_slices:
  "concat (map (\<lambda>z. take c (drop (z * c) xs)) [0..<m]) = take (m * c) xs"
proof (induction m)
  case 0
  then show ?case by simp
next
  case (Suc m)
  have "take (m * c) xs @ take c (drop (m * c) xs) = take (m * c + c) xs"
    by (rule take_add [symmetric])
  with Suc show ?case by (simp add: add.commute)
qed

lemma concat_shards:
  assumes "0 < P" and "\<forall>e\<in>set colorList. length e = d"
  shows "concat (map partition' (partitionAll d k colorList P :: 'r Proc list)) = colorList"
proof -
  let ?n = "length colorList"
  let ?c = "?n div P"
  obtain m where P: "P = Suc m" using assms(1) by (cases P) auto
  have front: "map (\<lambda>rank. partition' (partitionColors d colorList P rank (initProc d k :: 'r Proc))) [0..<m]
        = map (\<lambda>z. take ?c (drop (z * ?c) colorList)) [0..<m]"
  proof (rule map_cong [OF refl])
    fix z assume "z \<in> set [0..<m]"
    then have z: "z < m" by simp
    then have "shardSize ?n P z = ?c" using P by (simp add: shardSize_def)
    then show "partition' (partitionColors d colorList P z (initProc d k :: 'r Proc))
                 = take ?c (drop (z * ?c) colorList)"
      using z P assms by (simp add: partitionColors_partition)
  qed
  have "m * ?c \<le> P * ?c" using P by simp
  also have "\<dots> \<le> ?n" by simp
  finally have le: "m * ?c \<le> ?n" .
  have "shardSize ?n P m = ?n - m * ?c" using P by (simp add: shardSize_def mult.commute)
  then have last: "partition' (partitionColors d colorList P m (initProc d k :: 'r Proc))
                 = drop (m * ?c) colorList"
    using P assms by (simp add: partitionColors_partition)
  have "concat (map partition' (partitionAll d k colorList P :: 'r Proc list))
        = concat (map (\<lambda>rank. partition' (partitionColors d colorList P rank (initProc d k :: 'r Proc))) [0..<m])
          @ partition' (partitionColors d colorList P m (initProc d k :: 'r Proc))"
    by (simp add: partitionAll_def P comp_def)
  also have "\<dots> = take (m * ?c) colorList @ drop (m * ?c) colorList"
    by (simp only: front last concat_slices)
  finally show ?thesis by simp
qed

text \<open>
  Claim C3. With \<open>P \<ge> 1\<close> workers and \<open>n\<close> elements of \<open>d\<close> bytes, \<open>partitionColors\<close> gives
  every rank but the last a shard of \<open>n div P\<close> elements and the last rank a shard of
  \<open>n - (P - 1) * (n div P)\<close> elements; the shard of a rank is the slice of the dataset that
  starts at \<open>rank * (n div P)\<close>, and the shards in rank order make up the dataset. (The
  bounds \<open>n \<ge> 1\<close> and \<open>P \<le> n\<close> of the claim are not needed.)
\<close>

theorem partitionColors_shards:
  assumes "1 \<le> P" and "length colorList = n" and "\<forall>e\<in>set colorList. length e = d"
    and "rank < P"
  shows "maxNum (partitionAll d k colorList P ! rank :: 'r Proc)
           = (if rank = P - 1 then n - (P - 1) * (n div P) else n div P)
       \<and> partition' (partitionAll d k colorList P ! rank :: 'r Proc)
           = take (maxNum (partitionAll d k colorList P ! rank :: 'r Proc))
                  (drop (rank * (n div P)) colorList)
       \<and> length (partitionAll d k colorList P :: 'r Proc list) = P
       \<and> concat (map partition' (partitionAll d k colorList P :: 'r Proc list)) = colorList"
proof -
  have "maxNum (partitionAll d k colorList P ! rank :: 'r Proc)
          = (if rank = P - 1 then n - (P - 1) * (n div P) else n div P)"
    using assms by (simp add: partitionAll_nth partitionColors_maxNum shardSize_def mult.commute)
  moreover have "partition' (partitionAll d k colorList P ! rank :: 'r Proc)
           = take (maxNum (partitionAll d k colorList P ! rank :: 'r Proc))
                  (drop (rank * (n div P)) colorList)"
    using assms by (simp add: partitionAll_nth partitionColors_maxNum partitionColors_partition)
  moreover have "concat (map partition' (partitionAll d k colorList P :: 'r Proc list)) = colorList"
    using assms by (intro concat_shards) simp_all
  ultimately show ?thesis by (simp add: length_partitionAll)
qed

theorem partitionColors_shards_witness:
  "maxNum (partitionAll 1 2 sevenColors 3 ! 2 :: nat Proc) = 3
   \<and> partition' (partitionAll 1 2 sevenColors 3 ! 2 :: nat Proc) = [[100], [101], [102]]
   \<and> maxNum (partitionAll 1 2 sevenColors 3 ! 0 :: nat Proc) = 2
   \<and> partition' (partitionAll 1 2 sevenColors 3 ! 0 :: nat Proc) = [[0], [1]]"
proof -
  have h1: "(1::nat) \<le> 3" by simp
  have h2: "length sevenColors = 7" by (simp add: sevenColors_def)
  have h3: "\<forall>e\<in>set sevenColors. length e = 1" by (simp add: sevenColors_def)
  show ?thesis
    using partitionColors_shards [OF h1 h2 h3, of 2 2, where ?'r = nat]
      partitionColors_shards [OF h1 h2 h3, of 0 2, where ?'r = nat]
    by (simp add: sevenColors_def)
qed

section \<open>Properties of updateClusters\<close>

lemma foldE_append:
  "foldE f (xs @ ys) s = (case foldE f xs s of Inl e \<Rightarrow> Inl e | Inr s' \<Rightarrow> foldE f ys s')"
  by (induction xs arbitrary: s) (auto split: sum.splits)

lemma foldE_snoc:
  "foldE f (xs @ [x]) s = (case foldE f xs s of Inl e \<Rightarrow> Inl e | Inr s' \<Rightarrow> f x s')"
  by (simp add: foldE_append split: sum.splits)

lemma closest_Suc:
  "0 < m \<Longrightarrow> closest (Suc m) row
     = (if row ! m < row ! closest m row then m else closest m row)"
  by (simp add: closest_def)

lemma closest_one: "closest (Suc 0) row = 0"
  by (simp add: closest_def)

lemma closest_spec:
  fixes row :: "('r::linorder) list"
  assumes "0 < k"
  shows "closest k row < k \<and> (\<forall>j<k. row ! closest k row \<le> row ! j)
           \<and> (\<forall>j<closest k row. row ! closest k row < row ! j)"
  using assms
proof (induction k)
  case 0
  then show ?case by simp
next
  case (Suc m)
  show ?case
  proof (cases "m = 0")
    case True
    then show ?thesis by (simp add: closest_one)
  next
    case False
    then have m: "0 < m" by simp
    note IH = Suc.IH [OF m]
    show ?thesis
    proof (cases "row ! m < row ! closest m row")
      case True
      then have c: "closest (Suc m) row = m" using m by (simp add: closest_Suc)
      have "\<forall>j<Suc m. row ! m \<le> row ! j"
      proof (intro allI impI)
        fix j assume "j < Suc m"
        then consider "j = m" | "j < m" by linarith
        then show "row ! m \<le> row ! j"
        proof cases
          case 1 then show ?thesis by simp
        next
          case 2
          with IH have "row ! closest m row \<le> row ! j" by blast
          with True show ?thesis by simp
        qed
      qed
      moreover have "\<forall>j<m. row ! m < row ! j"
      proof (intro allI impI)
        fix j assume "j < m"
        with IH have "row ! closest m row \<le> row ! j" by blast
        with True show "row ! m < row ! j" by simp
      qed
      ultimately show ?thesis using c by simp
    next
      case False
      then have c: "closest (Suc m) row = closest m row" using m by (simp add: closest_Suc)
      have "\<forall>j<Suc m. row ! closest m row \<le> row ! j"
      proof (intro allI impI)
        fix j assume "j < Suc m"
        then consider "j = m" | "j < m" by linarith
        then show "row ! closest m row \<le> row ! j"
        proof cases
          case 1 with False show ?thesis by simp
        next
          case 2 with IH show ?thesis by blast
        qed
      qed
      with IH c show ?thesis by (simp add: less_Suc_eq)
    qed
  qed
qed

lemma updateCentroid_length:
  "updateCentroid cen cc x nc = Inr c' \<Longrightarrow> length c' = length cen"
  unfolding updateCentroid_def Let_def by (drule mapE_length) simp

lemma assignElement_Inr:
  "assignElement k p i cs
     = Inr (cs[closest k (dist p ! i) :=
              \<lparr>elements = elements (cs ! closest k (dist p ! i)) @ [i],
               centroid = map (\<lambda>j. of_nat ((unat (centroid (cs ! closest k (dist p ! i)) ! j)
                                              * length (elements (cs ! closest k (dist p ! i)))
                                            + unat (partition' p ! i ! j) * 1)
                                           div (length (elements (cs ! closest k (dist p ! i))) + 1)))
                              [0..<length (centroid (cs ! closest k (dist p ! i)))]\<rparr>])"
  by (simp add: assignElement_def Let_def updateCentroid_Inr)

lemma assign_loop:
  assumes "0 < k"
  shows "\<exists>cs. foldE (assignElement k p) [0..<m] (replicate k \<lparr>elements = [], centroid = replicate d 0\<rparr>) = Inr cs
            \<and> length cs = k
            \<and> (\<forall>j<k. elements (cs ! j) = assigned k p m j \<and> length (centroid (cs ! j)) = d)"
proof (induction m)
  case 0
  then show ?case by (simp add: assigned_def)
next
  case (Suc m)
  then obtain cs where cs: "foldE (assignElement k p) [0..<m]
        (replicate k \<lparr>elements = [], centroid = replicate d 0\<rparr>) = Inr cs"
    and len: "length cs = k"
    and inv: "\<forall>j<k. elements (cs ! j) = assigned k p m j \<and> length (centroid (cs ! j)) = d"
    by blast
  let ?mn = "closest k (dist p ! m)"
  have mn: "?mn < k" using closest_spec [OF assms] by blast
  obtain cs' where cs': "assignElement k p m cs = Inr cs'"
    and cs'_def: "cs' = cs[?mn := \<lparr>elements = elements (cs ! ?mn) @ [m],
               centroid = map (\<lambda>j. of_nat ((unat (centroid (cs ! ?mn) ! j) * length (elements (cs ! ?mn))
                                            + unat (partition' p ! m ! j) * 1)
                                           div (length (elements (cs ! ?mn)) + 1)))
                              [0..<length (centroid (cs ! ?mn))]\<rparr>]"
    by (simp add: assignElement_Inr)
  have "foldE (assignElement k p) [0..<Suc m] (replicate k \<lparr>elements = [], centroid = replicate d 0\<rparr>) = Inr cs'"
    by (simp add: foldE_snoc cs cs')
  moreover have "length cs' = k" by (simp add: cs'_def len)
  moreover have "\<forall>j<k. elements (cs' ! j) = assigned k p (Suc m) j \<and> length (centroid (cs' ! j)) = d"
  proof (intro allI impI)
    fix j assume j: "j < k"
    show "elements (cs' ! j) = assigned k p (Suc m) j \<and> length (centroid (cs' ! j)) = d"
    proof (cases "j = ?mn")
      case True
      then show ?thesis using inv j len by (simp add: cs'_def assigned_def)
    next
      case False
      then show ?thesis using inv j len by (auto simp: cs'_def assigned_def)
    qed
  qed
  ultimately show ?case by blast
qed

lemma updateClusters_Inr:
  assumes "0 < k"
  shows "\<exists>p'. updateClusters d k p = Inr p' \<and> length (clusters p') = k
            \<and> (\<forall>j<k. elements (clusters p' ! j) = assigned k p (maxNum p) j
                     \<and> length (centroid (clusters p' ! j)) = d)
            \<and> partition' p' = partition' p \<and> colorIds p' = colorIds p \<and> maxNum p' = maxNum p
            \<and> dist p' = dist p"
proof -
  obtain cs where "foldE (assignElement k p) [0..<maxNum p]
        (replicate k \<lparr>elements = [], centroid = replicate d 0\<rparr>) = Inr cs"
    and "length cs = k"
    and "\<forall>j<k. elements (cs ! j) = assigned k p (maxNum p) j \<and> length (centroid (cs ! j)) = d"
    using assign_loop [OF assms] by blast
  then show ?thesis by (simp add: updateClusters_def)
qed

lemma assigned_mem:
  "i \<in> set (assigned k p m j) \<longleftrightarrow> i < m \<and> closest k (dist p ! i) = j"
  by (auto simp: assigned_def)

lemma distinct_assigned: "distinct (assigned k p m j)"
  by (simp add: assigned_def)

lemma sum_list_indicator_upt:
  "(\<Sum>j\<leftarrow>[0..<k]. if a = j then 1 else 0) = (if a < k then 1 else (0::nat))"
  by (induction k) auto

lemma sum_length_filter_classes:
  assumes "\<forall>x\<in>set xs. f x < k"
  shows "(\<Sum>j\<leftarrow>[0..<k]. length (filter (\<lambda>x. f x = j) xs)) = length xs"
  using assms
proof (induction xs)
  case Nil
  then show ?case by (simp add: sum_list_0)
next
  case (Cons x xs)
  have "(\<Sum>j\<leftarrow>[0..<k]. length (filter (\<lambda>y. f y = j) (x # xs)))
        = (\<Sum>j\<leftarrow>[0..<k]. (if f x = j then 1 else 0) + length (filter (\<lambda>y. f y = j) xs))"
    by (intro arg_cong [where f = sum_list] map_cong refl) simp
  also have "\<dots> = (\<Sum>j\<leftarrow>[0..<k]. if f x = j then 1 else 0) + (\<Sum>j\<leftarrow>[0..<k]. length (filter (\<lambda>y. f y = j) xs))"
    by (simp add: sum_list_addf)
  also have "(\<Sum>j\<leftarrow>[0..<k]. if f x = j then 1 else 0) = (1::nat)"
    using Cons.prems by (simp add: sum_list_indicator_upt)
  finally show ?case using Cons by simp
qed

lemma updateDistances_row:
  "i < maxNum p \<Longrightarrow> j < k \<Longrightarrow>
     dist (updateDistances distance k p) ! i ! j = distance (centroid (clusters p ! j)) (partition' p ! i)"
  by (simp add: updateDistances_def)

lemma updateDistances_maxNum: "maxNum (updateDistances distance k p) = maxNum p"
  by (simp add: updateDistances_def)

text \<open>
  Claim C4. In the assignment phase (\<open>updateDistances\<close>, then \<open>updateClusters\<close>) of a worker
  with \<open>k\<close> centroids, every local element \<open>i\<close> is put into the membership list of one
  cluster \<open>j\<close> and of no other; the centroid of \<open>j\<close> is at minimum distance from the
  element, and every cluster of lower index is strictly farther away.
\<close>

theorem updateClusters_nearest_centroid:
  fixes distance :: "Element \<Rightarrow> Element \<Rightarrow> 'r::linorder"
  assumes "0 < k" and "length (clusters p) = k" and "length (partition' p) = maxNum p"
    and "i < maxNum p"
  shows "\<exists>p' j. updateClusters d k (updateDistances distance k p) = Inr p' \<and> j < k
           \<and> i \<in> set (elements (clusters p' ! j))
           \<and> (\<forall>j'<k. j' \<noteq> j \<longrightarrow> i \<notin> set (elements (clusters p' ! j')))
           \<and> (\<forall>j'<k. distance (centroid (clusters p ! j)) (partition' p ! i)
                         \<le> distance (centroid (clusters p ! j')) (partition' p ! i))
           \<and> (\<forall>j'<j. distance (centroid (clusters p ! j)) (partition' p ! i)
                         < distance (centroid (clusters p ! j')) (partition' p ! i))"
proof -
  let ?q = "updateDistances distance k p"
  let ?j = "closest k (dist ?q ! i)"
  obtain p' where p': "updateClusters d k ?q = Inr p'"
    and els: "\<forall>j<k. elements (clusters p' ! j) = assigned k ?q (maxNum ?q) j"
    using updateClusters_Inr [OF assms(1), of d ?q] by blast
  have spec: "?j < k" "\<forall>j'<k. dist ?q ! i ! ?j \<le> dist ?q ! i ! j'"
    "\<forall>j'<?j. dist ?q ! i ! ?j < dist ?q ! i ! j'"
    using closest_spec [OF assms(1), of "dist ?q ! i"] by blast+
  have "i \<in> set (elements (clusters p' ! ?j))"
    using els spec(1) assms(4) by (simp add: assigned_mem updateDistances_maxNum)
  moreover have "\<forall>j'<k. j' \<noteq> ?j \<longrightarrow> i \<notin> set (elements (clusters p' ! j'))"
    using els by (simp add: assigned_mem)
  moreover have "\<forall>j'<k. distance (centroid (clusters p ! ?j)) (partition' p ! i)
                         \<le> distance (centroid (clusters p ! j')) (partition' p ! i)"
    using spec(1,2) assms(4) by (simp add: updateDistances_row)
  moreover have "\<forall>j'<?j. distance (centroid (clusters p ! ?j)) (partition' p ! i)
                         < distance (centroid (clusters p ! j')) (partition' p ! i)"
  proof (intro allI impI)
    fix j' assume "j' < ?j"
    moreover from this have "j' < k" using spec(1) by simp
    ultimately show "distance (centroid (clusters p ! ?j)) (partition' p ! i)
                         < distance (centroid (clusters p ! j')) (partition' p ! i)"
      using spec(1,3) assms(4) by (simp add: updateDistances_row)
  qed
  ultimately show ?thesis using p' spec(1) by blast
qed

theorem updateClusters_nearest_centroid_witness:
  "(0::nat) < 3 \<and> length (clusters tieProc) = 3 \<and> length (partition' tieProc) = maxNum tieProc
   \<and> 0 < maxNum tieProc
   \<and> (\<exists>p' j. updateClusters 1 3 (updateDistances euclideanSquared 3 tieProc) = Inr p' \<and> j < 3
           \<and> 0 \<in> set (elements (clusters p' ! j))
           \<and> (\<forall>j'<3. j' \<noteq> j \<longrightarrow> 0 \<notin> set (elements (clusters p' ! j')))
           \<and> (\<forall>j'<3. euclideanSquared (centroid (clusters tieProc ! j)) (partition' tieProc ! 0)
                         \<le> euclideanSquared (centroid (clusters tieProc ! j')) (partition' tieProc ! 0))
           \<and> (\<forall>j'<j. euclideanSquared (centroid (clusters tieProc ! j)) (partition' tieProc ! 0)
                         < euclideanSquared (centroid (clusters tieProc ! j')) (partition' tieProc ! 0)))"
proof -
  have h1: "(0::nat) < 3" by simp
  have h2: "length (clusters tieProc) = 3" by (simp add: tieProc_def)
  have h3: "length (partition' tieProc) = maxNum tieProc" by (simp add: tieProc_def)
  have h4: "0 < maxNum tieProc" by (simp add: tieProc_def)
  show ?thesis
    using h1 h2 h3 h4 updateClusters_nearest_centroid [OF h1 h2 h3 h4, of 1 euclideanSquared]
    by blast
qed

lemma tieProc_assignment:
  "updateClusters 1 3 (updateDistances euclideanSquared 3 tieProc)
     = Inr \<lparr>partition' = [[15], [12], [30]], colorIds = [0, 1, 2], maxNum = 3,
            clusters = [\<lparr>elements = [0, 1], centroid = [13]\<rparr>, \<lparr>elements = [2], centroid = [30]\<rparr>,
                        \<lparr>elements = [], centroid = [0]\<rparr>],
            dist = [[25, 25, 25], [4, 64, 4], [400, 100, 400]]\<rparr>"
  by code_simp

lemma mapE_list_all2:
  "(\<And>x. x \<in> set xs \<Longrightarrow> \<exists>y. f x = Inr y \<and> Q x y) \<Longrightarrow> \<exists>ys. mapE f xs = Inr ys \<and> list_all2 Q xs ys"
proof (induction xs)
  case Nil
  then show ?case by simp
next
  case (Cons x xs)
  then obtain y where y: "f x = Inr y" "Q x y" by auto
  from Cons obtain ys where ys: "mapE f xs = Inr ys" "list_all2 Q xs ys" by auto
  from y ys show ?case by simp
qed

lemma sum_list_shardSize:
  assumes "0 < P"
  shows "(\<Sum>z\<leftarrow>[0..<P]. shardSize n P z) = n"
proof -
  obtain m where P: "P = Suc m" using assms by (cases P) auto
  have "map (shardSize n P) [0..<m] = map (\<lambda>z. n div P) [0..<m]"
    using P by (intro map_cong refl) (simp add: shardSize_def)
  then have "(\<Sum>z\<leftarrow>[0..<m]. shardSize n P z) = (\<Sum>z\<leftarrow>[0..<m]. n div P)"
    by (rule arg_cong)
  then have "(\<Sum>z\<leftarrow>[0..<m]. shardSize n P z) = m * (n div P)"
    by (simp add: sum_list_triv)
  moreover have "shardSize n P m = n - (n div P) * m" using P by (simp add: shardSize_def)
  moreover have "(n div P) * m \<le> n"
  proof -
    have "(n div P) * m \<le> (n div P) * P" using P by simp
    also have "\<dots> \<le> n" by simp
    finally show ?thesis .
  qed
  ultimately show ?thesis using P by (simp add: mult.commute)
qed

lemma sum_length_assigned:
  assumes "0 < k"
  shows "(\<Sum>j\<leftarrow>[0..<k]. length (assigned k p m j)) = m"
proof -
  have "\<forall>i\<in>set [0..<m]. closest k (dist p ! i) < k"
    using closest_spec [OF assms] by blast
  then have "(\<Sum>j\<leftarrow>[0..<k]. length (filter (\<lambda>i. closest k (dist p ! i) = j) [0..<m])) = length [0..<m]"
    by (rule sum_length_filter_classes)
  then show ?thesis by (simp add: assigned_def)
qed

lemma mapE_updateClusters:
  assumes "0 < k"
  shows "\<exists>procs'. mapE (updateClusters d k) procs = Inr procs' \<and> list_all2 (assignedTo k) procs procs'"
proof (rule mapE_list_all2)
  fix p :: "'a Proc"
  show "\<exists>p'. updateClusters d k p = Inr p' \<and> assignedTo k p p'"
    using updateClusters_Inr [OF assms, of d p] unfolding assignedTo_def by blast
qed

lemma assignedTo_total:
  assumes "0 < k" and "list_all2 (assignedTo k) procs procs'"
  shows "(\<Sum>p'\<leftarrow>procs'. \<Sum>j\<leftarrow>[0..<k]. length (elements (clusters p' ! j))) = sum_list (map maxNum procs)"
  using assms(2)
proof (induction rule: list_all2_induct)
  case Nil
  then show ?case by simp
next
  case (Cons p ps p' ps')
  have "map (\<lambda>j. length (elements (clusters p' ! j))) [0..<k]
        = map (\<lambda>j. length (assigned k p (maxNum p) j)) [0..<k]"
    using Cons.hyps(1) by (intro map_cong refl) (simp add: assignedTo_def)
  then have "(\<Sum>j\<leftarrow>[0..<k]. length (elements (clusters p' ! j)))
        = (\<Sum>j\<leftarrow>[0..<k]. length (assigned k p (maxNum p) j))"
    by (rule arg_cong)
  then have "(\<Sum>j\<leftarrow>[0..<k]. length (elements (clusters p' ! j))) = maxNum p"
    by (simp only: sum_length_assigned [OF assms(1)])
  with Cons.IH show ?case by simp
qed

text \<open>
  Claim C6. After the assignment phase on all workers (\<open>updateClusters\<close> never fails), every
  local index of a worker's shard is in the membership list of exactly one cluster of that
  worker, the lists hold no index twice and nothing but local indices, and the lengths of
  all membership lists of all workers add up to \<open>n\<close>. The workers' states are any states
  whose \<open>maxNum\<close> is the one \<open>partitionColors\<close> has set.
\<close>

theorem updateClusters_membership:
  fixes procs :: "('r::linorder) Proc list"
  assumes "0 < k" and "1 \<le> P" and "length colorList = n"
    and "map maxNum procs = map maxNum (partitionAll d k colorList P :: 'r Proc list)"
  shows "\<exists>procs'. mapE (updateClusters d k) procs = Inr procs' \<and> length procs' = P
     \<and> (\<forall>z<P. \<forall>i<maxNum (procs ! z). \<exists>!j. j < k \<and> i \<in> set (elements (clusters (procs' ! z) ! j)))
     \<and> (\<forall>z<P. \<forall>j<k. distinct (elements (clusters (procs' ! z) ! j))
                     \<and> set (elements (clusters (procs' ! z) ! j)) \<subseteq> {0..<maxNum (procs ! z)})
     \<and> (\<Sum>p'\<leftarrow>procs'. \<Sum>j\<leftarrow>[0..<k]. length (elements (clusters p' ! j))) = n"
proof -
  obtain procs' where run: "mapE (updateClusters d k) procs = Inr procs'"
    and all2: "list_all2 (assignedTo k) procs procs'"
    using mapE_updateClusters [OF assms(1)] by blast
  have "length procs = length (map maxNum procs)" by simp
  also have "\<dots> = P" by (simp only: assms(4) length_map length_partitionAll)
  finally have lenP: "length procs = P" .
  then have len': "length procs' = P" using all2 by (simp add: list_all2_lengthD)
  have at: "\<And>z. z < P \<Longrightarrow> assignedTo k (procs ! z) (procs' ! z)"
    using all2 lenP by (simp add: list_all2_nthD)
  have one: "\<forall>z<P. \<forall>i<maxNum (procs ! z). \<exists>!j. j < k \<and> i \<in> set (elements (clusters (procs' ! z) ! j))"
  proof (intro allI impI)
    fix z i assume z: "z < P" and i: "i < maxNum (procs ! z)"
    let ?j = "closest k (dist (procs ! z) ! i)"
    have "?j < k" using closest_spec [OF assms(1)] by blast
    then show "\<exists>!j. j < k \<and> i \<in> set (elements (clusters (procs' ! z) ! j))"
      using at [OF z] i by (intro ex1I [where a = ?j]) (auto simp: assignedTo_def assigned_mem)
  qed
  have two: "\<forall>z<P. \<forall>j<k. distinct (elements (clusters (procs' ! z) ! j))
                     \<and> set (elements (clusters (procs' ! z) ! j)) \<subseteq> {0..<maxNum (procs ! z)}"
    using at by (auto simp: assignedTo_def assigned_mem distinct_assigned)
  have "(\<Sum>p'\<leftarrow>procs'. \<Sum>j\<leftarrow>[0..<k]. length (elements (clusters p' ! j))) = sum_list (map maxNum procs)"
    using assms(1) all2 by (rule assignedTo_total)
  also have "\<dots> = (\<Sum>z\<leftarrow>[0..<P]. shardSize n P z)"
    by (simp add: assms(3,4) partitionAll_def partitionColors_maxNum comp_def)
  also have "\<dots> = n" using assms(2) by (intro sum_list_shardSize) simp
  finally show ?thesis using run len' one two by blast
qed

theorem updateClusters_membership_witness:
  "(0::nat) < 2 \<and> (1::nat) \<le> 3 \<and> length sevenColors = 7
   \<and> map maxNum (map (updateDistances euclideanSquared 2) (partitionAll 1 2 sevenColors 3))
       = map maxNum (partitionAll 1 2 sevenColors 3 :: nat Proc list)
   \<and> (\<exists>procs'. mapE (updateClusters 1 2)
                (map (updateDistances euclideanSquared 2) (partitionAll 1 2 sevenColors 3)) = Inr procs'
         \<and> length procs' = 3
         \<and> (\<Sum>p'\<leftarrow>procs'. \<Sum>j\<leftarrow>[0..<2]. length (elements (clusters p' ! j))) = 7)"
proof -
  let ?procs = "map (updateDistances euclideanSquared 2) (partitionAll 1 2 sevenColors 3 :: nat Proc list)"
  have h1: "(0::nat) < 2" by simp
  have h2: "(1::nat) \<le> 3" by simp
  have h3: "length sevenColors = 7" by (simp add: sevenColors_def)
  have h4: "map maxNum ?procs = map maxNum (partitionAll 1 2 sevenColors 3 :: nat Proc list)"
    by (simp add: updateDistances_maxNum comp_def)
  show ?thesis
    using h1 h2 h3 h4 updateClusters_membership [OF h1 h2 h3 h4] by blast
qed

section \<open>The merge order of combineClusters\<close>

lemma mergeReport_mergeAt:
  assumes "index = (z * k + i) * (d + 1)" and "index' = (z * k + Suc i) * (d + 1)"
  shows "mergeReport d recvbuf i (cs, sz, index)
     = (case mergeAt d k recvbuf (z, i) (cs, sz) of
          Inl e \<Rightarrow> Inl e
        | Inr (cs', sz') \<Rightarrow> Inr (cs', sz', index'))"
  using assms by (simp add: mergeReport_def mergeAt_def Let_def split: sum.splits)

lemma merge_inner:
  "foldE (mergeReport d recvbuf) [0..<m] (cs, sz, z * k * (d + 1))
     = (case foldE (mergeAt d k recvbuf) (map (\<lambda>i. (z, i)) [0..<m]) (cs, sz) of
          Inl e \<Rightarrow> Inl e
        | Inr (cs', sz') \<Rightarrow> Inr (cs', sz', (z * k + m) * (d + 1)))"
proof (induction m)
  case 0
  then show ?case by simp
next
  case (Suc m)
  show ?case
  proof (cases "foldE (mergeAt d k recvbuf) (map (\<lambda>i. (z, i)) [0..<m]) (cs, sz)")
    case (Inl e)
    with Suc show ?thesis by (simp add: foldE_snoc)
  next
    case (Inr st)
    obtain cs' sz' where st: "st = (cs', sz')" by (cases st)
    with Inr Suc have pre: "foldE (mergeReport d recvbuf) [0..<m] (cs, sz, z * k * (d + 1))
        = Inr (cs', sz', (z * k + m) * (d + 1))" by simp
    have step: "mergeReport d recvbuf m (cs', sz', (z * k + m) * (d + 1))
        = (case mergeAt d k recvbuf (z, m) (cs', sz') of
             Inl e \<Rightarrow> Inl e
           | Inr (cs'', sz'') \<Rightarrow> Inr (cs'', sz'', (z * k + Suc m) * (d + 1)))"
      by (rule mergeReport_mergeAt) (rule refl)+
    have "foldE (mergeReport d recvbuf) [0..<Suc m] (cs, sz, z * k * (d + 1))
        = mergeReport d recvbuf m (cs', sz', (z * k + m) * (d + 1))"
      by (simp only: upt_Suc_append [OF le0] foldE_snoc pre sum.case)
    moreover have "foldE (mergeAt d k recvbuf) (map (\<lambda>i. (z, i)) [0..<Suc m]) (cs, sz)
        = mergeAt d k recvbuf (z, m) (cs', sz')"
      using Inr st by (simp add: foldE_snoc)
    ultimately show ?thesis by (simp only: step)
  qed
qed

lemma merge_outer:
  "foldE (\<lambda>z. foldE (mergeReport d recvbuf) [0..<k]) [0..<P] (cs, sz, 0)
     = (case foldE (mergeAt d k recvbuf) (reportOrder k P) (cs, sz) of
          Inl e \<Rightarrow> Inl e
        | Inr (cs', sz') \<Rightarrow> Inr (cs', sz', P * k * (d + 1)))"
proof (induction P)
  case 0
  then show ?case by (simp add: reportOrder_def)
next
  case (Suc P)
  have ord: "reportOrder k (Suc P) = reportOrder k P @ map (\<lambda>i. (P, i)) [0..<k]"
    by (simp add: reportOrder_def)
  show ?case
  proof (cases "foldE (mergeAt d k recvbuf) (reportOrder k P) (cs, sz)")
    case (Inl e)
    with Suc show ?thesis by (simp add: foldE_snoc foldE_append ord)
  next
    case (Inr st)
    obtain cs' sz' where st: "st = (cs', sz')" by (cases st)
    with Inr Suc have pre: "foldE (\<lambda>z. foldE (mergeReport d recvbuf) [0..<k]) [0..<P] (cs, sz, 0)
        = Inr (cs', sz', P * k * (d + 1))" by simp
    have "(P * k + k) * (d + 1) = Suc P * k * (d + 1)" by simp
    then have inner: "foldE (mergeReport d recvbuf) [0..<k] (cs', sz', P * k * (d + 1))
        = (case foldE (mergeAt d k recvbuf) (map (\<lambda>i. (P, i)) [0..<k]) (cs', sz') of
             Inl e \<Rightarrow> Inl e
           | Inr (cs'', sz'') \<Rightarrow> Inr (cs'', sz'', Suc P * k * (d + 1)))"
      by (simp only: merge_inner)
    have "foldE (\<lambda>z. foldE (mergeReport d recvbuf) [0..<k]) [0..<Suc P] (cs, sz, 0)
        = foldE (mergeReport d recvbuf) [0..<k] (cs', sz', P * k * (d + 1))"
      by (simp only: upt_Suc_append [OF le0] foldE_snoc pre sum.case)
    moreover have "foldE (mergeAt d k recvbuf) (reportOrder k (Suc P)) (cs, sz)
        = foldE (mergeAt d k recvbuf) (map (\<lambda>i. (P, i)) [0..<k]) (cs', sz')"
      using Inr st by (simp add: foldE_append ord)
    ultimately show ?thesis by (simp only: inner)
  qed
qed

text \<open>
  Claim C10. The root's double loop over the gathered buffer is the fold of the reports in
  the order of \<open>reportOrder\<close> (increasing rank, and increasing cluster index within a rank),
  the report of cluster \<open>i\<close> of rank \<open>z\<close> being read at the fixed offset
  \<open>(z * k + i) * (d + 1)\<close>: the merged clusters are this one function of the gathered
  buffer and of the root's clusters before the merge.
\<close>

theorem mergeAll_fixed_order:
  "mergeAll d k proccesses recvbuf cs
     = (case mergeOrdered d k proccesses recvbuf cs of
          Inl e \<Rightarrow> Inl e
        | Inr (cs', clusterSizes) \<Rightarrow> Inr (cs', clusterSizes, proccesses * k * (d + 1)))"
  unfolding mergeAll_def mergeOrdered_def by (rule merge_outer)

theorem mergeAll_fixed_order_witness:
  "mergeAll 1 2 2 [10, 1, 20, 3, 30, 1, 40, 1]
      [\<lparr>elements = [0], centroid = [10]\<rparr>, \<lparr>elements = [1, 2, 3], centroid = [20]\<rparr>]
     = Inr ([\<lparr>elements = [0], centroid = [16]\<rparr>, \<lparr>elements = [1, 2, 3], centroid = [22]\<rparr>],
            [3, 7], 8)"
proof -
  have "mergeOrdered 1 2 2 [10, 1, 20, 3, 30, 1, 40, 1]
      [\<lparr>elements = [0], centroid = [10]\<rparr>, \<lparr>elements = [1, 2, 3], centroid = [20]\<rparr>]
     = Inr ([\<lparr>elements = [0], centroid = [16]\<rparr>, \<lparr>elements = [1, 2, 3], centroid = [22]\<rparr>], [3, 7])"
    by code_simp
  then show ?thesis unfolding mergeAll_fixed_order by simp
qed

section \<open>Member counts on the wire\<close>

lemma nth_concat_at:
  assumes "i < length xss" and "j < length (xss ! i)"
  shows "concat xss ! (length (concat (take i xss)) + j) = xss ! i ! j"
proof -
  have "xss = take i xss @ (xss ! i) # drop (Suc i) xss"
    using assms(1) by (rule id_take_nth_drop)
  then have "concat xss = concat (take i xss) @ (xss ! i @ concat (drop (Suc i) xss))"
    by (metis concat.simps(2) concat_append)
  then show ?thesis using assms(2) by (simp add: nth_append)
qed

lemma length_serializeCentroids: "length (serializeCentroids d k cs) = k * (d + 1)"
  unfolding serializeCentroids_def by (subst length_concat_uniform [where c = "d + 1"]) auto

lemma serializeCentroids_count:
  assumes "i < k"
  shows "serializeCentroids d k cs ! (i * (d + 1) + d) = of_nat (length (elements (cs ! i)))"
proof -
  let ?recs = "map (\<lambda>i. map (\<lambda>j. centroid (cs ! i) ! j) [0..<d] @ [of_nat (length (elements (cs ! i)))]) [0..<k]"
  have "concat ?recs ! (i * (d + 1) + d) = ?recs ! i ! d"
    using assms by (intro nth_concat_uniform) auto
  also have "\<dots> = of_nat (length (elements (cs ! i)))"
    using assms by (simp add: nth_append)
  finally show ?thesis by (simp only: serializeCentroids_def)
qed

lemma serializeCentroids_centroid:
  assumes "i < k" and "j < d"
  shows "serializeCentroids d k cs ! (i * (d + 1) + j) = centroid (cs ! i) ! j"
proof -
  let ?recs = "map (\<lambda>i. map (\<lambda>j. centroid (cs ! i) ! j) [0..<d] @ [of_nat (length (elements (cs ! i)))]) [0..<k]"
  have "concat ?recs ! (i * (d + 1) + j) = ?recs ! i ! j"
    using assms by (intro nth_concat_uniform) auto
  also have "\<dots> = centroid (cs ! i) ! j"
    using assms by (simp add: nth_append)
  finally show ?thesis by (simp only: serializeCentroids_def)
qed

lemma gathered_nth:
  assumes "z < length procs" and "m < k * (d + 1)"
  shows "concat (map (\<lambda>p. serializeCentroids d k (clusters p)) procs) ! (z * (k * (d + 1)) + m)
           = serializeCentroids d k (clusters (procs ! z)) ! m"
proof -
  have "concat (map (\<lambda>p. serializeCentroids d k (clusters p)) procs) ! (z * (k * (d + 1)) + m)
        = map (\<lambda>p. serializeCentroids d k (clusters p)) procs ! z ! m"
    using assms by (intro nth_concat_uniform) (auto simp: length_serializeCentroids)
  then show ?thesis using assms by simp
qed

lemma report_position:
  fixes i k j d z :: nat
  assumes "i < k" and "j \<le> d"
  shows "(z * k + i) * (d + 1) + j = z * (k * (d + 1)) + (i * (d + 1) + j)"
    and "i * (d + 1) + j < k * (d + 1)"
proof -
  show "(z * k + i) * (d + 1) + j = z * (k * (d + 1)) + (i * (d + 1) + j)"
    by (simp only: add_mult_distrib mult.assoc add.assoc)
  have "i * (d + 1) + j < Suc i * (d + 1)" using assms by simp
  also have "\<dots> \<le> k * (d + 1)" using assms by (intro mult_le_mono1) simp
  finally show "i * (d + 1) + j < k * (d + 1)" .
qed

lemma gathered_count:
  assumes "z < length procs" and "i < k"
  shows "concat (map (\<lambda>p. serializeCentroids d k (clusters p)) procs) ! ((z * k + i) * (d + 1) + d)
           = of_nat (length (elements (clusters (procs ! z) ! i)))"
  using assms report_position(1) [where i = i and k = k and j = d and d = d and z = z] report_position(2) [where i = i and k = k and j = d and d = d]
  by (simp only: gathered_nth serializeCentroids_count le_refl)

lemma gathered_centroid:
  assumes "z < length procs" and "i < k" and "j < d"
  shows "concat (map (\<lambda>p. serializeCentroids d k (clusters p)) procs) ! ((z * k + i) * (d + 1) + j)
           = centroid (clusters (procs ! z) ! i) ! j"
  using assms report_position(1) [where i = i and k = k and j = j and d = d and z = z] report_position(2) [where i = i and k = k and j = j and d = d]
  by (simp only: gathered_nth serializeCentroids_centroid less_imp_le)

lemma serializeAssignments_count:
  assumes "i < k"
  shows "serializeAssignments k p ! (i + (\<Sum>i'\<leftarrow>[0..<i]. length (elements (clusters p ! i'))))
           = of_nat (length (elements (clusters p ! i)))"
proof -
  let ?f = "\<lambda>i. of_nat (length (elements (clusters p ! i)))
                      # map (\<lambda>index. of_nat (colorIds p ! index) :: byte) (elements (clusters p ! i))"
  let ?recs = "map ?f [0..<k]"
  have tk: "take i ?recs = map ?f [0..<i]" using assms by (simp add: take_map)
  have "length (concat (map ?f [0..<i])) = (\<Sum>i'\<leftarrow>[0..<i]. Suc (length (elements (clusters p ! i'))))"
    by (simp add: length_concat comp_def)
  also have "\<dots> = i + (\<Sum>i'\<leftarrow>[0..<i]. length (elements (clusters p ! i')))"
    by (induction i) simp_all
  finally have len: "length (concat (take i ?recs)) = i + (\<Sum>i'\<leftarrow>[0..<i]. length (elements (clusters p ! i')))"
    by (simp only: tk)
  have "concat ?recs ! (length (concat (take i ?recs)) + 0) = ?recs ! i ! 0"
    using assms by (intro nth_concat_at) simp_all
  then have "concat ?recs ! (i + (\<Sum>i'\<leftarrow>[0..<i]. length (elements (clusters p ! i')))) = ?recs ! i ! 0"
    by (simp only: len add_0_right)
  also have "\<dots> = of_nat (length (elements (clusters p ! i)))" using assms by simp
  finally show ?thesis by (simp only: serializeAssignments_def)
qed

lemma mod_256_id_iff: "(n::nat) mod 256 = n \<longleftrightarrow> n \<le> 255"
proof
  assume "n mod 256 = n"
  moreover have "n mod 256 < 256" by (rule mod_less_divisor) simp
  ultimately show "n \<le> 255" by simp
next
  assume "n \<le> 255"
  then show "n mod 256 = n" by simp
qed

text \<open>
  Claim C9. The member count of a local cluster is written to the wire as one
  \<open>unsigned char\<close>, in the report for the aggregation (\<open>combineClusters\<close>) and in the
  buffer for the collection (\<open>collectClusterAssignments\<close>): the count the root reads from
  the gathered reports for cluster \<open>i\<close> of rank \<open>z\<close>, and the count byte of cluster
  \<open>i\<close> in a rank's assignment buffer, are the true count modulo 256. The counts a rank
  sends are all the true counts if and only if each of its clusters has at most 255 members.
\<close>

theorem member_count_one_byte:
  assumes "z < length procs" and "i < k"
  shows "unat (concat (map (\<lambda>p. serializeCentroids d k (clusters p)) procs) ! ((z * k + i) * (d + 1) + d))
           = length (elements (clusters (procs ! z) ! i)) mod 256
       \<and> unat (serializeAssignments k (procs ! z)
                  ! (i + (\<Sum>i'\<leftarrow>[0..<i]. length (elements (clusters (procs ! z) ! i')))))
           = length (elements (clusters (procs ! z) ! i)) mod 256
       \<and> ((\<forall>i<k. unat (concat (map (\<lambda>p. serializeCentroids d k (clusters p)) procs)
                          ! ((z * k + i) * (d + 1) + d))
                   = length (elements (clusters (procs ! z) ! i)))
            \<longleftrightarrow> (\<forall>i<k. length (elements (clusters (procs ! z) ! i)) \<le> 255))
       \<and> ((\<forall>i<k. unat (serializeAssignments k (procs ! z)
                          ! (i + (\<Sum>i'\<leftarrow>[0..<i]. length (elements (clusters (procs ! z) ! i')))))
                   = length (elements (clusters (procs ! z) ! i)))
            \<longleftrightarrow> (\<forall>i<k. length (elements (clusters (procs ! z) ! i)) \<le> 255))"
proof -
  have a: "\<And>i. i < k \<Longrightarrow>
      unat (concat (map (\<lambda>p. serializeCentroids d k (clusters p)) procs) ! ((z * k + i) * (d + 1) + d))
           = length (elements (clusters (procs ! z) ! i)) mod 256"
    using assms(1) by (simp only: gathered_count unat_of_nat) simp
  have b: "\<And>i. i < k \<Longrightarrow>
      unat (serializeAssignments k (procs ! z)
                  ! (i + (\<Sum>i'\<leftarrow>[0..<i]. length (elements (clusters (procs ! z) ! i')))))
           = length (elements (clusters (procs ! z) ! i)) mod 256"
    by (simp only: serializeAssignments_count unat_of_nat) simp
  have a': "\<And>i. i < k \<Longrightarrow>
      (unat (concat (map (\<lambda>p. serializeCentroids d k (clusters p)) procs) ! ((z * k + i) * (d + 1) + d))
           = length (elements (clusters (procs ! z) ! i)))
      = (length (elements (clusters (procs ! z) ! i)) \<le> 255)"
    by (simp only: a mod_256_id_iff)
  have b': "\<And>i. i < k \<Longrightarrow>
      (unat (serializeAssignments k (procs ! z)
                  ! (i + (\<Sum>i'\<leftarrow>[0..<i]. length (elements (clusters (procs ! z) ! i')))))
           = length (elements (clusters (procs ! z) ! i)))
      = (length (elements (clusters (procs ! z) ! i)) \<le> 255)"
    by (simp only: b mod_256_id_iff)
  show ?thesis
  proof (intro conjI)
    show "unat (concat (map (\<lambda>p. serializeCentroids d k (clusters p)) procs) ! ((z * k + i) * (d + 1) + d))
           = length (elements (clusters (procs ! z) ! i)) mod 256"
      using assms(2) by (rule a)
    show "unat (serializeAssignments k (procs ! z)
                  ! (i + (\<Sum>i'\<leftarrow>[0..<i]. length (elements (clusters (procs ! z) ! i')))))
           = length (elements (clusters (procs ! z) ! i)) mod 256"
      using assms(2) by (rule b)
    show "(\<forall>i<k. unat (concat (map (\<lambda>p. serializeCentroids d k (clusters p)) procs)
                          ! ((z * k + i) * (d + 1) + d))
                   = length (elements (clusters (procs ! z) ! i)))
            \<longleftrightarrow> (\<forall>i<k. length (elements (clusters (procs ! z) ! i)) \<le> 255)"
      using a' by blast
    show "(\<forall>i<k. unat (serializeAssignments k (procs ! z)
                          ! (i + (\<Sum>i'\<leftarrow>[0..<i]. length (elements (clusters (procs ! z) ! i')))))
                   = length (elements (clusters (procs ! z) ! i)))
            \<longleftrightarrow> (\<forall>i<k. length (elements (clusters (procs ! z) ! i)) \<le> 255)"
      using b' by blast
  qed
qed

theorem member_count_one_byte_witness:
  "unat (concat (map (\<lambda>p. serializeCentroids 1 1 (clusters p)) [bigProc]) ! 1) = 44
   \<and> unat (serializeAssignments 1 bigProc ! 0) = 44
   \<and> length (elements (clusters bigProc ! 0)) = 300"
proof -
  have h1: "0 < length [bigProc]" by simp
  have h2: "(0::nat) < 1" by simp
  have len: "length (elements (clusters bigProc ! 0)) = 300" by (simp add: bigProc_def)
  show ?thesis
    using member_count_one_byte [OF h1 h2, of 1] len by simp
qed

section \<open>The generation loop\<close>

declare fitLoop.simps [simp del]
















section \<open>Clusters without elements\<close>










end
